theory Spec2Isabelle
  imports Main
begin

section \<open>pynocle/utils.py: a shallow embedding\<close>

text \<open>
  The module is Python 2 (\<^verbatim>\<open>raise KeyError, '...'\<close>, \<^verbatim>\<open>__metaclass__\<close>): \<^verbatim>\<open>map\<close> and
  \<^verbatim>\<open>filter\<close> return lists, so a filtered sequence can be read twice.
  Exceptions are values: a function that can raise returns a sum whose left
  injection is the exception.
\<close>

datatype error = TypeError | OSError | ReError

subsection \<open>ExtensionFormatterRegistry\<close>

text \<open>
  A registry stores arbitrary Python objects. Two things about an object matter to
  the class: its truth value (\<^verbatim>\<open>not result\<close>) and what calling it with a stream and
  keyword arguments does. \<^verbatim>\<open>None\<close> is false and not callable. Functions and classes
  are true; an instance whose class defines \<^verbatim>\<open>__nonzero__\<close> or \<^verbatim>\<open>__len__\<close> can be
  callable and false.
\<close>

type_synonym 'k kwargs = "(string \<times> 'k) list"

datatype ('s, 'k, 'r) pyobj =
  PyNone
| PyObj (obj_truth: bool) (obj_call: "'s \<Rightarrow> 'k kwargs \<Rightarrow> error + 'r")

fun truthy :: "('s, 'k, 'r) pyobj \<Rightarrow> bool" where
  "truthy PyNone = False"
| "truthy (PyObj b f) = b"

fun pycall :: "('s, 'k, 'r) pyobj \<Rightarrow> 's \<Rightarrow> 'k kwargs \<Rightarrow> error + 'r" where
  "pycall PyNone stream kwargs = Inl TypeError"
| "pycall (PyObj b f) stream kwargs = f stream kwargs"

record ('s, 'k, 'r) ExtensionFormatterRegistry =
  mapping :: "string \<rightharpoonup> ('s, 'k, 'r) pyobj"

text \<open>\<^verbatim>\<open>__init__(self, mapping=())\<close>: \<^verbatim>\<open>dict(mapping)\<close> of a sequence of pairs; a later
  pair replaces an earlier one with the same key.\<close>

definition init_registry ::
  "(string \<times> ('s, 'k, 'r) pyobj) list \<Rightarrow> ('s, 'k, 'r) ExtensionFormatterRegistry" where
  "init_registry pairs = \<lparr>mapping = map_of (rev pairs)\<rparr>"

definition Register ::
  "('s, 'k, 'r) ExtensionFormatterRegistry \<Rightarrow> string \<Rightarrow> ('s, 'k, 'r) pyobj
     \<Rightarrow> ('s, 'k, 'r) ExtensionFormatterRegistry" where
  "Register self ext v = self\<lparr>mapping := (mapping self)(ext \<mapsto> v)\<rparr>"

definition GetFormatter ::
  "('s, 'k, 'r) ExtensionFormatterRegistry \<Rightarrow> string \<Rightarrow> ('s, 'k, 'r) pyobj
     \<Rightarrow> ('s, 'k, 'r) pyobj" where
  "GetFormatter self ext dflt =
     (case mapping self ext of None \<Rightarrow> dflt | Some v \<Rightarrow> v)"

text \<open>
  The value \<^verbatim>\<open>GetFormatterFactory\<close> returns is either the looked-up object itself
  (\<^verbatim>\<open>return result\<close>) or a new function object,
  \<^verbatim>\<open>lambda stream: result(stream, **kwargs)\<close>, which holds \<^verbatim>\<open>result\<close> and \<^verbatim>\<open>kwargs\<close>.
\<close>

datatype ('s, 'k, 'r) factory =
  Unwrapped "('s, 'k, 'r) pyobj"
| Closure "('s, 'k, 'r) pyobj" "'k kwargs"

definition GetFormatterFactory ::
  "('s, 'k, 'r) ExtensionFormatterRegistry \<Rightarrow> string \<Rightarrow> ('s, 'k, 'r) pyobj \<Rightarrow> 'k kwargs
     \<Rightarrow> ('s, 'k, 'r) factory" where
  "GetFormatterFactory self ext dflt kwargs =
     (let result = GetFormatter self ext dflt
      in if \<not> truthy result then Unwrapped result else Closure result kwargs)"

text \<open>Calling what \<^verbatim>\<open>GetFormatterFactory\<close> returned, \<^verbatim>\<open>factory(stream)\<close>: the
  object itself is called with the stream alone, the lambda passes the keyword
  arguments it holds.\<close>

fun apply_factory :: "('s, 'k, 'r) factory \<Rightarrow> 's \<Rightarrow> error + 'r" where
  "apply_factory (Unwrapped v) stream = pycall v stream []"
| "apply_factory (Closure v kwargs) stream = pycall v stream kwargs"

subsection \<open>Example objects\<close>

text \<open>A constructor that records the stream and the options it was called with, and
  an object that behaves the same when called but whose truth value is false.\<close>

definition csv_constructor :: "(string, string, string \<times> string kwargs) pyobj" where
  "csv_constructor = PyObj True (\<lambda>stream kwargs. Inr (stream, kwargs))"

definition falsy_constructor :: "(string, string, string \<times> string kwargs) pyobj" where
  "falsy_constructor = PyObj False (\<lambda>stream kwargs. Inr (stream, kwargs))"

subsection \<open>swap_keys_and_values\<close>

text \<open>
  A Python dictionary as the list of its items in iteration order; the keys of a
  dictionary are distinct. \<^verbatim>\<open>d.keys()\<close> and \<^verbatim>\<open>d.values()\<close> follow the same order.
  \<^verbatim>\<open>d[k] = v\<close> replaces the value of a key that is present and adds the item
  otherwise. \<^verbatim>\<open>len(d)\<close> is the number of items.
\<close>

type_synonym ('k, 'v) dict = "('k \<times> 'v) list"

definition is_dict :: "('k, 'v) dict \<Rightarrow> bool" where
  "is_dict d = distinct (map fst d)"

definition dict_keys :: "('k, 'v) dict \<Rightarrow> 'k list" where
  "dict_keys d = map fst d"

definition dict_values :: "('k, 'v) dict \<Rightarrow> 'v list" where
  "dict_values d = map snd d"

definition dict_get :: "('k, 'v) dict \<Rightarrow> 'k \<Rightarrow> 'v option" where
  "dict_get d k = map_of d k"

fun setitem :: "('k, 'v) dict \<Rightarrow> 'k \<Rightarrow> 'v \<Rightarrow> ('k, 'v) dict" where
  "setitem [] k v = [(k, v)]"
| "setitem ((k', v') # d) k v =
     (if k' = k then (k, v) # d else (k', v') # setitem d k v)"

text \<open>
  \<^verbatim>\<open>dict(pairs)\<close> stores the pairs one after the other, so a later pair overwrites
  an earlier one with the same key. Storing hashes the key, and an object that
  cannot be hashed (a list, a dictionary, a set) raises \<^verbatim>\<open>TypeError\<close> there. Which
  objects can be hashed is Python's: the predicate \<open>hashable\<close>.
\<close>

fun dict_of_pairs ::
  "('k \<Rightarrow> bool) \<Rightarrow> ('k, 'v) dict \<Rightarrow> ('k \<times> 'v) list \<Rightarrow> error + ('k, 'v) dict" where
  "dict_of_pairs hashable d [] = Inr d"
| "dict_of_pairs hashable d ((k, v) # ps) =
     (if hashable k then dict_of_pairs hashable (setitem d k v) ps else Inl TypeError)"

text \<open>
  What \<^verbatim>\<open>swap_keys_and_values\<close> can raise: the \<^verbatim>\<open>KeyError\<close> of its own \<^verbatim>\<open>raise\<close>
  statement, whose message is formatted from \<^verbatim>\<open>d.values()\<close> (the model keeps the
  values it carries), and whatever building the inverted dictionary raises.
\<close>

datatype 'v swap_error = KeyError "'v list" | Raised error

definition swap_keys_and_values ::
  "('v \<Rightarrow> bool) \<Rightarrow> ('k, 'v) dict \<Rightarrow> 'v swap_error + ('v, 'k) dict" where
  "swap_keys_and_values hashable d =
     (case dict_of_pairs hashable [] (zip (dict_values d) (dict_keys d)) of
        Inl err \<Rightarrow> Inl (Raised err)
      | Inr result \<Rightarrow>
          if length d \<noteq> length result
          then Inl (KeyError (dict_values d))
          else Inr result)"

text \<open>Values for the examples: integers, which can be hashed, and lists of
  integers, which cannot.\<close>

datatype py_value = IntVal int | ListVal "int list"

fun py_hashable :: "py_value \<Rightarrow> bool" where
  "py_hashable (IntVal i) = True"
| "py_hashable (ListVal xs) = False"

subsection \<open>flatten\<close>

text \<open>
  The generator yields the node, then everything the generator of each child
  yields, child after child. The model returns the list of the values yielded.
  \<^verbatim>\<open>getchildren\<close> is any function, so the recursion need not end (a node that is
  its own descendant): the first argument bounds the depth of the recursion, and
  \<open>None\<close> says that the bound was reached.
\<close>

fun flatten :: "nat \<Rightarrow> 'a \<Rightarrow> ('a \<Rightarrow> 'a list) \<Rightarrow> 'a list option" where
  "flatten 0 node getchildren = None"
| "flatten (Suc fuel) node getchildren =
     (case those (map (\<lambda>child. flatten fuel child getchildren) (getchildren node)) of
        None \<Rightarrow> None
      | Some gcs \<Rightarrow> Some (node # concat gcs))"

text \<open>
  The specification's words: a finite tree, and its depth-first pre-order. A tree
  \<open>t\<close> is the unfolding of \<open>getchildren\<close> from its root when at every node the roots
  of the subtrees are, in order, the children \<open>getchildren\<close> gives for that node.
\<close>

datatype 'a tree = Node (root: 'a) (subtrees: "'a tree list")

fun preorder :: "'a tree \<Rightarrow> 'a list" where
  "preorder (Node a ts) = a # concat (map preorder ts)"

fun unfolds :: "('a \<Rightarrow> 'a list) \<Rightarrow> 'a tree \<Rightarrow> bool" where
  "unfolds getchildren (Node a ts) =
     (map root ts = getchildren a \<and> list_all (unfolds getchildren) ts)"

fun height :: "'a tree \<Rightarrow> nat" where
  "height (Node a ts) = Suc (foldr max (map height ts) 0)"

text \<open>The tree \<^verbatim>\<open>1 -> [2,3], 2 -> [4], 3 -> [], 4 -> []\<close>.\<close>

definition example_children :: "nat \<Rightarrow> nat list" where
  "example_children n = (if n = 1 then [2, 3] else if n = 2 then [4] else [])"

definition example_tree :: "nat tree" where
  "example_tree = Node 1 [Node 2 [Node 4 []], Node 3 []]"

subsection \<open>prettify_path\<close>

text \<open>
  What \<^verbatim>\<open>prettify_path\<close> reads of the \<^verbatim>\<open>os\<close> module: \<^verbatim>\<open>os.sep\<close>, \<^verbatim>\<open>os.altsep\<close> (which is
  \<^verbatim>\<open>None\<close> where the platform has no alternate separator) and \<^verbatim>\<open>os.getcwd()\<close>.
\<close>

record os_module =
  sep :: string
  altsep :: "string option"
  getcwd :: string

definition extsep :: string where
  "extsep = ''.''"

text \<open>\<^verbatim>\<open>s.startswith(p)\<close>.\<close>

definition startswith :: "string \<Rightarrow> string \<Rightarrow> bool" where
  "startswith s p = (take (length p) s = p)"

text \<open>\<^verbatim>\<open>s.replace(old, new)\<close>: every occurrence of \<open>old\<close>, found from the left without
  overlap, is replaced; an empty \<open>old\<close> matches before every character and at the
  end.\<close>

function str_replace_from :: "string \<Rightarrow> string \<Rightarrow> string \<Rightarrow> string" where
  "str_replace_from [] old new = []"
| "str_replace_from (c # cs) old new =
     (if old \<noteq> [] \<and> startswith (c # cs) old
      then new @ str_replace_from (drop (length old) (c # cs)) old new
      else c # str_replace_from cs old new)"
  by pat_completeness auto
termination
  by (relation "measure (\<lambda>(s, old, new). length s)") auto

definition str_replace :: "string \<Rightarrow> string \<Rightarrow> string \<Rightarrow> string" where
  "str_replace s old new =
     (if old = [] then new @ concat (map (\<lambda>c. c # new) s)
      else str_replace_from s old new)"

text \<open>\<^verbatim>\<open>s.rfind(sub)\<close>: the highest index at which \<open>sub\<close> occurs in \<open>s\<close>, or \<open>-1\<close>.\<close>

definition rfind :: "string \<Rightarrow> string \<Rightarrow> int" where
  "rfind s sub =
     (case filter (\<lambda>i. take (length sub) (drop i s) = sub)
             (rev [0 ..< Suc (length s) - length sub]) of
        [] \<Rightarrow> - 1
      | i # _ \<Rightarrow> int i)"

text \<open>
  \<^verbatim>\<open>os.path.splitext\<close> (\<^verbatim>\<open>genericpath._splitext\<close>): the extension starts at the last
  dot of the last path component, unless that component has only dots before it.
  \<open>name_before_dot\<close> is the loop that skips the leading dots; it answers whether
  the loop reaches its \<^verbatim>\<open>return p[:dotIndex], p[dotIndex:]\<close>.
\<close>

function name_before_dot :: "string \<Rightarrow> nat \<Rightarrow> nat \<Rightarrow> bool" where
  "name_before_dot p filenameIndex dotIndex =
     (if filenameIndex < dotIndex
      then (if [p ! filenameIndex] \<noteq> extsep then True
            else name_before_dot p (Suc filenameIndex) dotIndex)
      else False)"
  by pat_completeness auto
termination
  by (relation "measure (\<lambda>(p, i, j). j - i)") auto

definition splitext :: "os_module \<Rightarrow> string \<Rightarrow> string \<times> string" where
  "splitext os p =
     (let sepIndex = rfind p (sep os);
          sepIndex = (case altsep os of
                        None \<Rightarrow> sepIndex
                      | Some a \<Rightarrow> if a = [] then sepIndex else max sepIndex (rfind p a));
          dotIndex = rfind p extsep
      in if dotIndex > sepIndex \<and> name_before_dot p (nat (sepIndex + 1)) (nat dotIndex)
         then (take (nat dotIndex) p, drop (nat dotIndex) p)
         else (p, []))"

text \<open>\<^verbatim>\<open>s.strip(chars)\<close>: the characters of \<open>chars\<close> are removed from both ends.\<close>

definition strip :: "string \<Rightarrow> string \<Rightarrow> string" where
  "strip s chars =
     rev (dropWhile (\<lambda>c. c \<in> set chars) (rev (dropWhile (\<lambda>c. c \<in> set chars) s)))"

text \<open>
  \<^verbatim>\<open>str.replace\<close> with \<^verbatim>\<open>None\<close> for its first argument raises \<^verbatim>\<open>TypeError\<close>; the first
  statement of the function does so whenever \<^verbatim>\<open>os.altsep\<close> is \<^verbatim>\<open>None\<close>.
  \<^verbatim>\<open>leading or os.getcwd()\<close> takes the current directory for \<^verbatim>\<open>None\<close> and for the
  empty string.
\<close>

definition prettify_path :: "os_module \<Rightarrow> string \<Rightarrow> string option \<Rightarrow> error + string" where
  "prettify_path os path leading =
     (case altsep os of
        None \<Rightarrow> Inl TypeError
      | Some alt \<Rightarrow>
          (let leading = str_replace
                 (case leading of
                    None \<Rightarrow> getcwd os
                  | Some l \<Rightarrow> if l = [] then getcwd os else l)
                 alt (sep os);
               s = fst (splitext os (str_replace path alt (sep os)));
               s = (if startswith s leading then str_replace s leading [] else s)
           in Inr (strip s (sep os))))"

text \<open>
  Three platforms: POSIX (\<^verbatim>\<open>posixpath\<close>: separator \<^verbatim>\<open>/\<close>, no alternate separator),
  Windows (\<^verbatim>\<open>ntpath\<close>: separator backslash, alternate \<^verbatim>\<open>/\<close>) and OS/2
  (\<^verbatim>\<open>os2emxpath\<close>: separator \<^verbatim>\<open>/\<close>, alternate backslash).
\<close>

definition posix :: os_module where
  "posix = \<lparr>sep = ''/'', altsep = None, getcwd = ''/tmp''\<rparr>"

definition nt :: os_module where
  "nt = \<lparr>sep = [CHR 0x5C], altsep = Some ''/'',
          getcwd = ''C:'' @ [CHR 0x5C] @ ''tmp''\<rparr>"

definition os2emx :: os_module where
  "os2emx = \<lparr>sep = ''/'', altsep = Some [CHR 0x5C], getcwd = ''/tmp''\<rparr>"

subsection \<open>IReportFormatter and write_report\<close>

text \<open>
  The file object \<^verbatim>\<open>open(filename, 'w')\<close> returns: its name, whether it has been
  closed, and what has been written to it.
\<close>

record sink =
  fname :: string
  closed :: bool
  written :: string

text \<open>
  The formatter factory and the methods of a formatter are code supplied by the
  caller. Such code runs against the file object and whatever else it keeps
  (\<open>'u\<close>); it returns a value or raises an exception \<open>'x\<close>, and in both cases leaves
  the file object and the rest as it changed them.
\<close>

type_synonym 'u world = "sink \<times> 'u"

type_synonym ('u, 'x, 'a) py = "'u world \<Rightarrow> ('x + 'a) \<times> 'u world"

record ('d, 'u, 'x) IReportFormatter =
  format_report_header :: "('u, 'x, unit) py"
  format_data :: "'d \<Rightarrow> ('u, 'x, unit) py"
  format_report_footer :: "('u, 'x, unit) py"

text \<open>
  The body of the \<^verbatim>\<open>with\<close> statement: the factory is called with the file object,
  then the three methods of the formatter it returned, each on the state the
  call before left; the first exception ends the body.
\<close>

definition report_body ::
  "'d \<Rightarrow> ('u, 'x, ('d, 'u, 'x) IReportFormatter) py \<Rightarrow> 'u world
     \<Rightarrow> 'x option \<times> 'u world" where
  "report_body data formatter_factory w0 =
     (case formatter_factory w0 of
        (Inl e, w1) \<Rightarrow> (Some e, w1)
      | (Inr fmt, w1) \<Rightarrow>
          (case format_report_header fmt w1 of
             (Inl e, w2) \<Rightarrow> (Some e, w2)
           | (Inr _, w2) \<Rightarrow>
               (case format_data fmt data w2 of
                  (Inl e, w3) \<Rightarrow> (Some e, w3)
                | (Inr _, w3) \<Rightarrow>
                    (case format_report_footer fmt w3 of
                       (Inl e, w4) \<Rightarrow> (Some e, w4)
                     | (Inr _, w4) \<Rightarrow> (None, w4)))))"

text \<open>
  Leaving the \<^verbatim>\<open>with\<close> block, normally or by an exception, calls \<^verbatim>\<open>f.close()\<close>. The
  file object is closed afterwards in every case. Closing flushes what was
  written and can itself raise (\<open>close_error f = Some e\<close>, a full disk); that
  exception then leaves the block, in place of an exception of the body.
  Otherwise the exception of the body, if any, is raised again.
\<close>

definition leave_with ::
  "(sink \<Rightarrow> 'x option) \<Rightarrow> 'x option \<Rightarrow> sink \<Rightarrow> 'x option \<times> sink" where
  "leave_with close_error exc f =
     ((case close_error f of Some e \<Rightarrow> Some e | None \<Rightarrow> exc), f\<lparr>closed := True\<rparr>)"

text \<open>
  \<^verbatim>\<open>with open(filename, 'w') as f\<close>: \<^verbatim>\<open>open\<close> raises (\<open>open_error filename = Some e\<close>,
  and there is no file object) or returns a fresh, empty, open file object. The
  result is the exception that leaves \<^verbatim>\<open>write_report\<close>, if any, the file object if
  one was opened, and the rest of the state.
\<close>

definition opened :: "string \<Rightarrow> sink" where
  "opened filename = \<lparr>fname = filename, closed = False, written = []\<rparr>"

definition write_report ::
  "(string \<Rightarrow> 'x option) \<Rightarrow> (sink \<Rightarrow> 'x option) \<Rightarrow> string \<Rightarrow> 'd
     \<Rightarrow> ('u, 'x, ('d, 'u, 'x) IReportFormatter) py \<Rightarrow> 'u
     \<Rightarrow> 'x option \<times> sink option \<times> 'u" where
  "write_report open_error close_error filename data formatter_factory u =
     (case open_error filename of
        Some e \<Rightarrow> (Some e, None, u)
      | None \<Rightarrow>
          (case report_body data formatter_factory (opened filename, u) of
             (exc, (f, u')) \<Rightarrow>
               (case leave_with close_error exc f of
                  (exc', f') \<Rightarrow> (exc', Some f', u'))))"

text \<open>
  Formatters for the examples. Each method appends to the file object; the
  \<^verbatim>\<open>format_data\<close> of the second one writes the data and then raises.
\<close>

definition plain_formatter :: "(string, unit, string) IReportFormatter" where
  "plain_formatter =
     \<lparr>format_report_header =
        (\<lambda>(f, u). (Inr (), (f\<lparr>written := written f @ ''head''\<rparr>, u))),
      format_data =
        (\<lambda>d (f, u). (Inr (), (f\<lparr>written := written f @ d\<rparr>, u))),
      format_report_footer =
        (\<lambda>(f, u). (Inr (), (f\<lparr>written := written f @ ''foot''\<rparr>, u)))\<rparr>"

definition failing_formatter :: "(string, unit, string) IReportFormatter" where
  "failing_formatter =
     plain_formatter\<lparr>format_data :=
        (\<lambda>d (f, u). (Inl ''boom'', (f\<lparr>written := written f @ d\<rparr>, u)))\<rparr>"

definition plain_factory ::
  "(unit, string, (string, unit, string) IReportFormatter) py" where
  "plain_factory = (\<lambda>w. (Inr plain_formatter, w))"

definition failing_factory ::
  "(unit, string, (string, unit, string) IReportFormatter) py" where
  "failing_factory = (\<lambda>w. (Inr failing_formatter, w))"

text \<open>A host on which every file opens and closes, and one on which closing a
  file that has been written to fails.\<close>

definition always_opens :: "string \<Rightarrow> string option" where
  "always_opens filename = None"

definition always_closes :: "sink \<Rightarrow> string option" where
  "always_closes f = None"

definition disk_full :: "sink \<Rightarrow> string option" where
  "disk_full f = (if written f = [] then None else Some ''IOError'')"

subsection \<open>fnmatch\<close>

text \<open>
  \<^verbatim>\<open>fnmatch.filter(names, pat)\<close> of the standard library translates the pattern to
  a regular expression and keeps the names the whole of which it matches.
  \<^verbatim>\<open>*\<close> becomes \<^verbatim>\<open>.*\<close> and \<^verbatim>\<open>?\<close> becomes \<^verbatim>\<open>.\<close>, with the flag that lets the dot match
  every character, the path separator included. \<^verbatim>\<open>[seq]\<close> becomes a character
  set, negated when \<open>seq\<close> starts with \<^verbatim>\<open>!\<close>; a \<^verbatim>\<open>[\<close> with no closing bracket is a
  literal. Every other character stands for itself.
\<close>

datatype class_item = Single char | Range char char

datatype glob = Star | AnyChar | CharClass bool "class_item list" | Literal char

text \<open>
  The text between the brackets and the rest of the pattern, for a pattern that
  went on after \<^verbatim>\<open>[\<close> with \<open>rest\<close>: a leading \<^verbatim>\<open>!\<close> and then a leading \<^verbatim>\<open>]\<close> are
  skipped before the closing bracket is searched.
\<close>

definition bracket :: "string \<Rightarrow> (string \<times> string) option" where
  "bracket rest =
     (let j = (if take 1 rest = ''!'' then 1 else 0);
          j = (if take 1 (drop j rest) = '']'' then j + 1 else j);
          scan = drop j rest
      in if CHR '']'' \<notin> set scan then None
         else Some (take j rest @ takeWhile (\<lambda>c. c \<noteq> CHR '']'') scan,
                    tl (dropWhile (\<lambda>c. c \<noteq> CHR '']'') scan)))"

text \<open>
  The members of a character set, as the regular expression compiler reads
  them: \<^verbatim>\<open>a-b\<close> is a range, and a range whose upper end is below its lower end is
  an error of the compiler (\<^verbatim>\<open>bad character range\<close>), which \<^verbatim>\<open>fnmatch.filter\<close> lets
  through.
\<close>

fun class_items :: "string \<Rightarrow> error + class_item list" where
  "class_items [] = Inr []"
| "class_items [c] = Inr [Single c]"
| "class_items [c, d] = Inr [Single c, Single d]"
| "class_items (c # d # e # rest) =
     (if d = CHR ''-''
      then (if of_char e < (of_char c :: nat) then Inl ReError
            else (case class_items rest of
                    Inl err \<Rightarrow> Inl err
                  | Inr items \<Rightarrow> Inr (Range c e # items)))
      else (case class_items (d # e # rest) of
              Inl err \<Rightarrow> Inl err
            | Inr items \<Rightarrow> Inr (Single c # items)))"

definition char_class :: "string \<Rightarrow> error + glob" where
  "char_class stuff =
     (if take 1 stuff = ''!''
      then (case class_items (drop 1 stuff) of
              Inl err \<Rightarrow> Inl err
            | Inr items \<Rightarrow> Inr (CharClass True items))
      else (case class_items stuff of
              Inl err \<Rightarrow> Inl err
            | Inr items \<Rightarrow> Inr (CharClass False items)))"

lemma bracket_shorter:
  "bracket rest = Some (stuff, remaining) \<Longrightarrow> length remaining \<le> length rest"
proof -
  have a: "length (dropWhile P xs) - Suc 0 \<le> length xs" for P :: "char \<Rightarrow> bool" and xs
    using length_dropWhile_le [of P xs] by simp
  have b: "length (dropWhile P (drop j xs)) - Suc 0 \<le> length xs"
    for P :: "char \<Rightarrow> bool" and xs j
    using length_dropWhile_le [of P "drop j xs"] by simp
  show "bracket rest = Some (stuff, remaining) \<Longrightarrow> length remaining \<le> length rest"
    by (auto simp: bracket_def Let_def a b split: if_splits)
qed

function translate :: "string \<Rightarrow> error + glob list" where
  "translate [] = Inr []"
| "translate (c # rest) =
     (if c = CHR ''*'' then
        (case translate rest of Inl err \<Rightarrow> Inl err | Inr gs \<Rightarrow> Inr (Star # gs))
      else if c = CHR ''?'' then
        (case translate rest of Inl err \<Rightarrow> Inl err | Inr gs \<Rightarrow> Inr (AnyChar # gs))
      else if c = CHR ''['' then
        (case bracket rest of
           None \<Rightarrow>
             (case translate rest of Inl err \<Rightarrow> Inl err | Inr gs \<Rightarrow> Inr (Literal c # gs))
         | Some (stuff, remaining) \<Rightarrow>
             (case char_class stuff of
                Inl err \<Rightarrow> Inl err
              | Inr g \<Rightarrow>
                  (case translate remaining of
                     Inl err \<Rightarrow> Inl err
                   | Inr gs \<Rightarrow> Inr (g # gs))))
      else
        (case translate rest of Inl err \<Rightarrow> Inl err | Inr gs \<Rightarrow> Inr (Literal c # gs)))"
  by pat_completeness auto
termination
  by (relation "measure length") (auto dest: bracket_shorter)

fun in_class :: "class_item list \<Rightarrow> char \<Rightarrow> bool" where
  "in_class [] x = False"
| "in_class (Single c # items) x = (x = c \<or> in_class items x)"
| "in_class (Range lo hi # items) x =
     ((of_char lo \<le> (of_char x :: nat) \<and> (of_char x :: nat) \<le> of_char hi) \<or> in_class items x)"

fun glob_match :: "glob list \<Rightarrow> string \<Rightarrow> bool" where
  "glob_match [] s = (s = [])"
| "glob_match (Star # gs) [] = glob_match gs []"
| "glob_match (Star # gs) (c # cs) = (glob_match gs (c # cs) \<or> glob_match (Star # gs) cs)"
| "glob_match (AnyChar # gs) [] = False"
| "glob_match (AnyChar # gs) (c # cs) = glob_match gs cs"
| "glob_match (CharClass negate items # gs) [] = False"
| "glob_match (CharClass negate items # gs) (c # cs) =
     (in_class items c \<noteq> negate \<and> glob_match gs cs)"
| "glob_match (Literal x # gs) [] = False"
| "glob_match (Literal x # gs) (c # cs) = (c = x \<and> glob_match gs cs)"

text \<open>\<^verbatim>\<open>fnmatch.filter\<close>: the pattern and, off POSIX, every name go through
  \<^verbatim>\<open>os.path.normcase\<close>, which is the identity on POSIX.\<close>

definition fnmatch_filter ::
  "(string \<Rightarrow> string) \<Rightarrow> string list \<Rightarrow> string \<Rightarrow> error + string list" where
  "fnmatch_filter normcase names pat =
     (case translate (normcase pat) of
        Inl err \<Rightarrow> Inl err
      | Inr gs \<Rightarrow> Inr (filter (\<lambda>name. glob_match gs (normcase name)) names))"

text \<open>A name matches a pattern: the pattern compiles and matches the whole name.\<close>

definition fnmatches :: "(string \<Rightarrow> string) \<Rightarrow> string \<Rightarrow> string \<Rightarrow> bool" where
  "fnmatches normcase name pat =
     (case translate (normcase pat) of
        Inl err \<Rightarrow> False
      | Inr gs \<Rightarrow> glob_match gs (normcase name))"

subsection \<open>find_all\<close>

text \<open>
  What \<^verbatim>\<open>_FindAll\<close> asks of the host: \<^verbatim>\<open>os.path.abspath\<close>, \<^verbatim>\<open>os.path.isfile\<close>,
  \<^verbatim>\<open>os.path.isdir\<close>, \<^verbatim>\<open>os.listdir\<close> (which raises \<^verbatim>\<open>OSError\<close> for a directory that
  cannot be read), \<^verbatim>\<open>os.path.join\<close> and, through \<^verbatim>\<open>fnmatch\<close>, \<^verbatim>\<open>os.path.normcase\<close>.
\<close>

record host =
  abspath :: "string \<Rightarrow> string"
  isfile :: "string \<Rightarrow> bool"
  isdir :: "string \<Rightarrow> bool"
  listdir :: "string \<Rightarrow> error + string list"
  join :: "string \<Rightarrow> string \<Rightarrow> string"
  normcase :: "string \<Rightarrow> string"

record FindAll =
  processed_files :: "string list"
  processed_files_set :: "string set"
  pattern :: string

definition not_yet_processed :: "FindAll \<Rightarrow> string \<Rightarrow> bool" where
  "not_yet_processed self filename = (filename \<notin> processed_files_set self)"

text \<open>\<^verbatim>\<open>unique\<close> is computed against the set as it is before this batch, and then
  appended whole.\<close>

definition findfiles :: "host \<Rightarrow> FindAll \<Rightarrow> string list \<Rightarrow> error + FindAll" where
  "findfiles os self filenames =
     (if filenames = [] then Inr self
      else (case fnmatch_filter (normcase os) filenames (pattern self) of
              Inl err \<Rightarrow> Inl err
            | Inr files \<Rightarrow>
                (let unique = filter (not_yet_processed self) files
                 in Inr (self\<lparr>processed_files := processed_files self @ unique,
                              processed_files_set :=
                                processed_files_set self \<union> set unique\<rparr>))))"

text \<open>A \<^verbatim>\<open>for\<close> loop whose body can raise or not return: the first such body ends
  the loop.\<close>

fun for_each ::
  "('a \<Rightarrow> 's \<Rightarrow> (error + 's) option) \<Rightarrow> 'a list \<Rightarrow> 's \<Rightarrow> (error + 's) option" where
  "for_each body [] s = Some (Inr s)"
| "for_each body (x # xs) s =
     (case body x s of
        None \<Rightarrow> None
      | Some (Inl err) \<Rightarrow> Some (Inl err)
      | Some (Inr s') \<Rightarrow> for_each body xs s')"

text \<open>
  \<^verbatim>\<open>findall\<close> calls itself for every directory, and a directory tree need not be
  finite in depth (a link to an ancestor). The second argument bounds the depth
  of the recursion; \<open>None\<close> says the bound was reached.
\<close>

fun findall :: "host \<Rightarrow> nat \<Rightarrow> FindAll \<Rightarrow> string list \<Rightarrow> (error + FindAll) option" where
  "findall os 0 self files_and_folders = None"
| "findall os (Suc fuel) self files_and_folders =
     (case findfiles os self (filter (isfile os) files_and_folders) of
        Inl err \<Rightarrow> Some (Inl err)
      | Inr self' \<Rightarrow>
          for_each
            (\<lambda>d st. case listdir os d of
                       Inl err \<Rightarrow> Some (Inl err)
                     | Inr names \<Rightarrow> findall os fuel st (map (join os d) names))
            (filter (isdir os) files_and_folders) self')"

definition init_FindAll :: "string \<Rightarrow> FindAll" where
  "init_FindAll pat = \<lparr>processed_files = [], processed_files_set = {}, pattern = pat\<rparr>"

definition find_all :: "host \<Rightarrow> nat \<Rightarrow> string list \<Rightarrow> string \<Rightarrow> (error + string list) option" where
  "find_all os fuel files_and_folders pat =
     (case findall os fuel (init_FindAll pat) (map (abspath os) files_and_folders) of
        None \<Rightarrow> None
      | Some (Inl err) \<Rightarrow> Some (Inl err)
      | Some (Inr fa) \<Rightarrow> Some (Inr (processed_files fa)))"

text \<open>\<^verbatim>\<open>posixpath.join\<close> of two components, and \<^verbatim>\<open>posixpath.basename\<close>.\<close>

definition posix_join :: "string \<Rightarrow> string \<Rightarrow> string" where
  "posix_join a b =
     (if take 1 b = ''/'' then b
      else if a = [] \<or> take 1 (rev a) = ''/'' then a @ b
      else a @ ''/'' @ b)"

definition posix_basename :: "string \<Rightarrow> string" where
  "posix_basename p = rev (takeWhile (\<lambda>c. c \<noteq> CHR ''/'') (rev p))"

text \<open>
  A POSIX host with the directory tree \<^verbatim>\<open>/root/{a.py, b.txt, sub/{c.py}}\<close>, the
  entries of \<^verbatim>\<open>/root\<close> listed in the order \<open>names\<close>. All paths given to it below
  are absolute and normalised, and \<^verbatim>\<open>os.path.abspath\<close> returns such a path as it
  is.
\<close>

definition tree_host :: "string list \<Rightarrow> host" where
  "tree_host names =
     \<lparr>abspath = (\<lambda>p. p),
      isfile = (\<lambda>p. p \<in> {''/root/a.py'', ''/root/b.txt'', ''/root/sub/c.py''}),
      isdir = (\<lambda>p. p \<in> {''/root'', ''/root/sub''}),
      listdir = (\<lambda>p. if p = ''/root'' then Inr names
                      else if p = ''/root/sub'' then Inr [''c.py'']
                      else Inl OSError),
      join = posix_join,
      normcase = (\<lambda>p. p)\<rparr>"

definition example_host :: host where
  "example_host = tree_host [''a.py'', ''b.txt'', ''sub'']"

text \<open>
  The paths a run of \<^verbatim>\<open>findall\<close> over the paths \<open>S\<close> meets: the paths of \<open>S\<close>, and for
  every directory met, its path joined with each of its entries. \<open>encountered\<close> are
  the paths \<^verbatim>\<open>find_all\<close> meets from its roots, made absolute.
\<close>

inductive_set reach :: "host \<Rightarrow> string set \<Rightarrow> string set"
  for os :: host and S :: "string set" where
  start: "p \<in> S \<Longrightarrow> p \<in> reach os S"
| child: "d \<in> reach os S \<Longrightarrow> isdir os d \<Longrightarrow> listdir os d = Inr names \<Longrightarrow> n \<in> set names
     \<Longrightarrow> join os d n \<in> reach os S"

definition encountered :: "host \<Rightarrow> string list \<Rightarrow> string set" where
  "encountered os files_and_folders = reach os (abspath os ` set files_and_folders)"

definition children :: "host \<Rightarrow> string \<Rightarrow> string set" where
  "children os d =
     (case listdir os d of Inl err \<Rightarrow> {} | Inr names \<Rightarrow> join os d ` set names)"

text \<open>The list and its companion set hold the same paths.\<close>

definition consistent :: "FindAll \<Rightarrow> bool" where
  "consistent self = (processed_files_set self = set (processed_files self))"

text \<open>No directory listing yields the same joined path twice.\<close>

definition distinct_listings :: "host \<Rightarrow> bool" where
  "distinct_listings os =
     (\<forall>d names. listdir os d = Inr names \<longrightarrow> distinct (map (join os d) names))"

section \<open>Properties\<close>

subsection \<open>The registry\<close>

lemma GetFormatter_Register:
  "GetFormatter (Register self key v) ext dflt =
     (if ext = key then v else GetFormatter self ext dflt)"
  by (simp add: GetFormatter_def Register_def)

text \<open>
  C9. \<^verbatim>\<open>Register\<close> is a total update of the dictionary (it has no failing branch).
  After registering \<open>c1\<close> and then \<open>c2\<close> under one key, \<^verbatim>\<open>GetFormatter\<close> of that key
  is \<open>c2\<close>, whatever the registry held before, and the lookup of every other key is
  what it was before the two registrations.
\<close>

theorem Register_last_wins:
  "GetFormatter (Register (Register self key c1) key c2) key dflt = c2 \<and>
   (\<forall>other. other \<noteq> key \<longrightarrow>
      GetFormatter (Register (Register self key c1) key c2) other dflt =
      GetFormatter self other dflt)"
  by (simp add: GetFormatter_Register)

theorem Register_last_wins_witness:
  "GetFormatter
     (Register (Register (init_registry [(''.txt'', PyObj True (\<lambda>s k. Inr (s @ ''t'')))])
        ''.csv'' PyNone) ''.csv'' (PyObj True (\<lambda>s k. Inr s)))
     ''.csv'' PyNone
   = (PyObj True (\<lambda>s k. Inr s) :: (string, string, string) pyobj) \<and>
   GetFormatter
     (Register (Register (init_registry [(''.txt'', PyObj True (\<lambda>s k. Inr (s @ ''t'')))])
        ''.csv'' PyNone) ''.csv'' (PyObj True (\<lambda>s k. Inr s)))
     ''.txt'' PyNone
   = (PyObj True (\<lambda>s k. Inr (s @ ''t'')) :: (string, string, string) pyobj)"
proof -
  note two = Register_last_wins
    [of "init_registry [(''.txt'', PyObj True (\<lambda>s k. Inr (s @ ''t'')))]"
        "''.csv''" PyNone "PyObj True (\<lambda>s k. Inr s) :: (string, string, string) pyobj"
        PyNone]
  have other: "''.txt'' \<noteq> ''.csv''"
    by simp
  have before: "GetFormatter (init_registry [(''.txt'', PyObj True (\<lambda>s k. Inr (s @ ''t'')))])
      ''.txt'' PyNone = (PyObj True (\<lambda>s k. Inr (s @ ''t'')) :: (string, string, string) pyobj)"
    by (simp add: GetFormatter_def init_registry_def)
  show ?thesis
    using two [THEN conjunct1] two [THEN conjunct2, THEN spec, THEN mp, OF other] before
    by simp
qed

text \<open>
  C4, as the claim states it, fails for a default that is true: the extension is
  not registered, and the result is not the default but a lambda holding it.
\<close>

theorem GetFormatterFactory_default_counterexample:
  "GetFormatterFactory (init_registry []) ''.unknown'' csv_constructor [(''delim'', '','')]
   \<noteq> Unwrapped csv_constructor"
  by (simp add: GetFormatterFactory_def GetFormatter_def init_registry_def
      csv_constructor_def)

text \<open>
  C4, amended. For an extension that is not registered, \<^verbatim>\<open>GetFormatterFactory\<close>
  returns the default itself when the default is false (\<^verbatim>\<open>None\<close> included), and
  a lambda over the default and the keyword options when the default is true.
  For an extension registered to a true constructor it returns a lambda which,
  called with a stream, calls that constructor with the stream and the options.
\<close>

theorem GetFormatterFactory_spec:
  "(mapping self ext = None \<longrightarrow>
      GetFormatterFactory self ext dflt kwargs =
        (if truthy dflt then Closure dflt kwargs else Unwrapped dflt)) \<and>
   (mapping self ext = Some c \<and> truthy c \<longrightarrow>
      GetFormatterFactory self ext dflt kwargs = Closure c kwargs \<and>
      (\<forall>stream. apply_factory (GetFormatterFactory self ext dflt kwargs) stream =
         pycall c stream kwargs))"
  by (simp add: GetFormatterFactory_def GetFormatter_def)

theorem GetFormatterFactory_spec_witness:
  "GetFormatterFactory (init_registry [(''.csv'', csv_constructor)])
     ''.unknown'' PyNone [(''delim'', '','')] = Unwrapped PyNone \<and>
   GetFormatterFactory (init_registry [(''.csv'', csv_constructor)])
     ''.csv'' PyNone [(''delim'', '','')] = Closure csv_constructor [(''delim'', '','')] \<and>
   apply_factory
     (GetFormatterFactory (init_registry [(''.csv'', csv_constructor)])
        ''.csv'' PyNone [(''delim'', '','')]) ''sink''
   = Inr (''sink'', [(''delim'', '','')])"
proof -
  have absent: "mapping (init_registry [(''.csv'', csv_constructor)]) ''.unknown'' = None"
    by (simp add: init_registry_def)
  have present: "mapping (init_registry [(''.csv'', csv_constructor)]) ''.csv''
      = Some csv_constructor \<and> truthy csv_constructor"
    by (simp add: init_registry_def csv_constructor_def)
  have called: "pycall csv_constructor ''sink'' [(''delim'', '','')]
      = Inr (''sink'', [(''delim'', '','')])"
    by (simp add: csv_constructor_def)
  show ?thesis
    using GetFormatterFactory_spec [THEN conjunct1, THEN mp, OF absent,
        of PyNone "[(''delim'', '','')]"]
      GetFormatterFactory_spec [THEN conjunct2, THEN mp, OF present,
        of PyNone "[(''delim'', '','')]"]
      called
    by simp
qed

text \<open>
  C10. When the object registered for an extension is false, \<^verbatim>\<open>GetFormatterFactory\<close>
  returns that object itself, not a lambda; a registry without the extension,
  asked with the same false object as the default, returns the same value. The
  two results are equal, so the shape of the result does not tell a registered
  false object from a missing entry.
\<close>

theorem GetFormatterFactory_falsy_registered:
  "mapping self ext = Some v \<and> \<not> truthy v \<and> mapping other ext = None \<longrightarrow>
     GetFormatterFactory self ext dflt kwargs = Unwrapped v \<and>
     GetFormatterFactory other ext v kwargs' = Unwrapped v"
  by (simp add: GetFormatterFactory_def GetFormatter_def)

theorem GetFormatterFactory_falsy_registered_witness:
  "GetFormatterFactory (init_registry [(''.csv'', falsy_constructor)])
     ''.csv'' csv_constructor [(''delim'', '','')] = Unwrapped falsy_constructor \<and>
   GetFormatterFactory (init_registry []) ''.csv'' falsy_constructor []
     = Unwrapped falsy_constructor"
proof -
  have hyp: "mapping (init_registry [(''.csv'', falsy_constructor)]) ''.csv''
      = Some falsy_constructor \<and> \<not> truthy falsy_constructor \<and>
      mapping (init_registry [] :: (string, string, string \<times> string kwargs)
        ExtensionFormatterRegistry) ''.csv'' = None"
    by (simp add: init_registry_def falsy_constructor_def)
  show ?thesis
    using GetFormatterFactory_falsy_registered [THEN mp, OF hyp,
        of csv_constructor "[(''delim'', '','')]" "[]"]
    by simp
qed

subsection \<open>swap_keys_and_values\<close>

lemma map_of_setitem: "map_of (setitem d k v) = (map_of d)(k \<mapsto> v)"
  by (induction d k v rule: setitem.induct) auto

lemma keys_setitem:
  "map fst (setitem d k v) =
     (if k \<in> set (map fst d) then map fst d else map fst d @ [k])"
  by (induction d k v rule: setitem.induct) auto

lemma distinct_setitem: "distinct (map fst d) \<Longrightarrow> distinct (map fst (setitem d k v))"
  by (simp add: keys_setitem)

text \<open>Building a dictionary from pairs raises exactly when a key cannot be hashed.\<close>

lemma dict_of_pairs_unhashable:
  "\<not> list_all hashable (map fst ps) \<Longrightarrow> dict_of_pairs hashable d ps = Inl TypeError"
  by (induction hashable d ps rule: dict_of_pairs.induct) auto

lemma dict_of_pairs_hashable:
  "list_all hashable (map fst ps) \<Longrightarrow> \<exists>r. dict_of_pairs hashable d ps = Inr r"
  by (induction hashable d ps rule: dict_of_pairs.induct) auto

lemma map_of_dict_of_pairs:
  "dict_of_pairs hashable d ps = Inr r \<Longrightarrow> map_of r = map_of d ++ map_of (rev ps)"
  by (induction hashable d ps rule: dict_of_pairs.induct)
     (auto simp: map_of_setitem map_add_def fun_eq_iff split: option.splits if_splits)

lemma distinct_dict_of_pairs:
  "dict_of_pairs hashable d ps = Inr r \<Longrightarrow> distinct (map fst d) \<Longrightarrow> distinct (map fst r)"
  by (induction hashable d ps rule: dict_of_pairs.induct)
     (auto simp: distinct_setitem split: if_splits)

lemma keyset_dict_of_pairs:
  assumes "dict_of_pairs hashable d ps = Inr r"
  shows "fst ` set r = fst ` set d \<union> fst ` set ps"
proof -
  have "dom (map_of r) = dom (map_of d ++ map_of (rev ps))"
    using assms by (simp add: map_of_dict_of_pairs)
  then show ?thesis
    by (simp add: dom_map_of_conv_image_fst Un_commute)
qed

lemma length_dict_of_pairs:
  assumes "dict_of_pairs hashable [] ps = Inr r"
  shows "length r = card (set (map fst ps))"
proof -
  have "length r = length (map fst r)"
    by simp
  also have "\<dots> = card (set (map fst r))"
    using distinct_dict_of_pairs [OF assms] by (intro distinct_card [symmetric]) simp
  finally show ?thesis
    using keyset_dict_of_pairs [OF assms] by simp
qed

text \<open>The length test of the source fires exactly when a value occurs twice.\<close>

lemma length_test_iff:
  assumes "dict_of_pairs hashable [] (zip (map snd d) (map fst d)) = Inr r"
  shows "length d \<noteq> length r \<longleftrightarrow> \<not> distinct (map snd d)"
  using card_distinct [of "map snd d"] distinct_card [of "map snd d"]
    length_dict_of_pairs [OF assms]
  by auto

lemma inverse_lookup:
  assumes "dict_of_pairs hashable [] (zip (map snd d) (map fst d)) = Inr r"
    and "distinct (map fst d)" and "distinct (map snd d)"
  shows "map_of r v = Some k \<longleftrightarrow> map_of d k = Some v"
proof -
  have z: "map fst (zip (map snd d) (map fst d)) = map snd d"
    by simp
  have "map_of (rev (zip (map snd d) (map fst d))) = map_of (zip (map snd d) (map fst d))"
    using assms(3) z
    by (intro map_of_inject_set [THEN iffD2])
       (simp_all add: rev_map [symmetric] del: map_fst_zip)
  moreover have "map_of (zip (map snd d) (map fst d)) v = Some k
      \<longleftrightarrow> (v, k) \<in> set (zip (map snd d) (map fst d))"
    using assms(3) by (simp add: map_of_eq_Some_iff)
  moreover have "(v, k) \<in> set (zip (map snd d) (map fst d)) \<longleftrightarrow> (k, v) \<in> set d"
    by (induction d) auto
  moreover have "(k, v) \<in> set d \<longleftrightarrow> map_of d k = Some v"
    using assms(2) by (simp add: map_of_eq_Some_iff)
  ultimately show ?thesis
    using map_of_dict_of_pairs [OF assms(1)] by simp
qed

text \<open>
  C6, as the claim states it, fails for values that cannot be hashed. The values
  of \<^verbatim>\<open>{'a': [1]}\<close> are pairwise distinct and the call raises \<^verbatim>\<open>TypeError\<close> instead
  of returning the inverse; two keys of \<^verbatim>\<open>{'a': [1], 'b': [1]}\<close> share a value and
  the call raises \<^verbatim>\<open>TypeError\<close>, not the error that carries the values.
\<close>

theorem swap_keys_and_values_unhashable_counterexample:
  "is_dict [(''a'', ListVal [1])] \<and>
   distinct (dict_values [(''a'', ListVal [1])]) \<and>
   swap_keys_and_values py_hashable [(''a'', ListVal [1])] = Inl (Raised TypeError) \<and>
   is_dict [(''a'', ListVal [1]), (''b'', ListVal [1])] \<and>
   \<not> distinct (dict_values [(''a'', ListVal [1]), (''b'', ListVal [1])]) \<and>
   swap_keys_and_values py_hashable [(''a'', ListVal [1]), (''b'', ListVal [1])]
     = Inl (Raised TypeError)"
  by (simp add: swap_keys_and_values_def is_dict_def dict_values_def dict_keys_def)

text \<open>
  C6, amended. For a dictionary all of whose values can be hashed: when the
  values are pairwise distinct, \<^verbatim>\<open>swap_keys_and_values\<close> returns a dictionary in
  which a value \<open>v\<close> maps to \<open>k\<close> exactly when \<open>k\<close> maps to \<open>v\<close> in the argument; when
  two keys share a value it raises the error that carries \<^verbatim>\<open>d.values()\<close> (a
  \<^verbatim>\<open>KeyError\<close> in the source). The test the source makes is the comparison of
  \<^verbatim>\<open>len(d)\<close> with the length of the inverted dictionary (the definition of
  \<open>swap_keys_and_values\<close>). For a dictionary with a value that cannot be hashed it
  raises \<^verbatim>\<open>TypeError\<close>.
\<close>

theorem swap_keys_and_values_spec:
  assumes "is_dict d"
  shows "(list_all hashable (dict_values d) \<and> distinct (dict_values d) \<longrightarrow>
            (\<exists>r. swap_keys_and_values hashable d = Inr r \<and> is_dict r \<and>
                 (\<forall>k v. dict_get r v = Some k \<longleftrightarrow> dict_get d k = Some v))) \<and>
         (list_all hashable (dict_values d) \<and> \<not> distinct (dict_values d) \<longrightarrow>
            swap_keys_and_values hashable d = Inl (KeyError (dict_values d))) \<and>
         (\<not> list_all hashable (dict_values d) \<longrightarrow>
            swap_keys_and_values hashable d = Inl (Raised TypeError))"
proof (cases "list_all hashable (dict_values d)")
  case False
  then have "dict_of_pairs hashable [] (zip (map snd d) (map fst d)) = Inl TypeError"
    by (intro dict_of_pairs_unhashable) (simp add: dict_values_def)
  with False show ?thesis
    by (simp add: swap_keys_and_values_def dict_values_def dict_keys_def)
next
  case True
  then obtain r where r: "dict_of_pairs hashable [] (zip (map snd d) (map fst d)) = Inr r"
    using dict_of_pairs_hashable [of hashable "zip (map snd d) (map fst d)" "[]"]
    by (auto simp: dict_values_def)
  have keys: "distinct (map fst d)"
    using assms by (simp add: is_dict_def)
  have "distinct (map fst r)"
    using distinct_dict_of_pairs [OF r] by simp
  then show ?thesis
    using True r length_test_iff [OF r] inverse_lookup [OF r keys]
    by (auto simp: swap_keys_and_values_def is_dict_def dict_values_def dict_keys_def
        dict_get_def)
qed

theorem swap_keys_and_values_spec_witness:
  "is_dict [(''a'', IntVal 1), (''b'', IntVal 2)] \<and>
   swap_keys_and_values py_hashable [(''a'', IntVal 1), (''b'', IntVal 2)]
     = Inr [(IntVal 1, ''a''), (IntVal 2, ''b'')] \<and>
   dict_get [(IntVal 1, ''a''), (IntVal 2, ''b'')] (IntVal 2) = Some ''b'' \<and>
   is_dict [(''a'', IntVal 1), (''b'', IntVal 1)] \<and>
   swap_keys_and_values py_hashable [(''a'', IntVal 1), (''b'', IntVal 1)]
     = Inl (KeyError [IntVal 1, IntVal 1]) \<and>
   swap_keys_and_values py_hashable [(''a'', IntVal 1), (''b'', ListVal [1])]
     = Inl (Raised TypeError)"
proof -
  have d1: "is_dict [(''a'', IntVal 1), (''b'', IntVal 2)]"
    and d2: "is_dict [(''a'', IntVal 1), (''b'', IntVal 1)]"
    and d3: "is_dict [(''a'', IntVal 1), (''b'', ListVal [1])]"
    by (simp_all add: is_dict_def)
  have v1: "list_all py_hashable (dict_values [(''a'', IntVal 1), (''b'', IntVal 2)]) \<and>
      distinct (dict_values [(''a'', IntVal 1), (''b'', IntVal 2)])"
    and v2: "list_all py_hashable (dict_values [(''a'', IntVal 1), (''b'', IntVal 1)]) \<and>
      \<not> distinct (dict_values [(''a'', IntVal 1), (''b'', IntVal 1)])"
    and v3: "\<not> list_all py_hashable (dict_values [(''a'', IntVal 1), (''b'', ListVal [1])])"
    by (simp_all add: dict_values_def)
  from swap_keys_and_values_spec [OF d1, THEN conjunct1, THEN mp, OF v1]
  obtain r where r: "swap_keys_and_values py_hashable [(''a'', IntVal 1), (''b'', IntVal 2)] = Inr r"
    and inv: "\<forall>k v. dict_get r v = Some k \<longleftrightarrow>
        dict_get [(''a'', IntVal 1), (''b'', IntVal 2)] k = Some v"
    by blast
  have r_eq: "r = [(IntVal 1, ''a''), (IntVal 2, ''b'')]"
    using r by (simp add: swap_keys_and_values_def dict_values_def dict_keys_def)
  have "dict_get r (IntVal 2) = Some ''b''"
    using inv by (simp add: dict_get_def)
  moreover have "swap_keys_and_values py_hashable [(''a'', IntVal 1), (''b'', IntVal 1)]
      = Inl (KeyError [IntVal 1, IntVal 1])"
    using swap_keys_and_values_spec [OF d2, THEN conjunct2, THEN conjunct1, THEN mp, OF v2]
    by (simp add: dict_values_def)
  moreover have "swap_keys_and_values py_hashable [(''a'', IntVal 1), (''b'', ListVal [1])]
      = Inl (Raised TypeError)"
    using swap_keys_and_values_spec [OF d3, THEN conjunct2, THEN conjunct2, THEN mp, OF v3] .
  ultimately show ?thesis
    using d1 d2 r r_eq by simp
qed

subsection \<open>flatten\<close>

lemma those_map_Some: "those (map (\<lambda>x. Some (f x)) xs) = Some (map f xs)"
  by (induction xs) auto

lemma foldr_max_ge: "x \<in> set xs \<Longrightarrow> x \<le> foldr max xs (m::nat)"
  by (induction xs) (auto simp: max_def)

lemma flatten_unfolds:
  "unfolds getchildren t \<Longrightarrow> height t \<le> fuel \<Longrightarrow>
     flatten fuel (root t) getchildren = Some (preorder t)"
proof (induction t arbitrary: fuel)
  case (Node a ts)
  then obtain n where fuel: "fuel = Suc n" and n: "foldr max (map height ts) 0 \<le> n"
    by (cases fuel) auto
  have kids: "getchildren a = map root ts"
    and sub: "\<forall>t \<in> set ts. unfolds getchildren t"
    using Node.prems(1) by (auto simp: list_all_iff)
  have "map (\<lambda>t. flatten n (root t) getchildren) ts = map (\<lambda>t. Some (preorder t)) ts"
  proof (rule map_ext, rule impI)
    fix t assume t: "t \<in> set ts"
    then have "height t \<le> n"
      using n foldr_max_ge [of "height t" "map height ts" 0] by auto
    then show "flatten n (root t) getchildren = Some (preorder t)"
      using Node.IH [OF t] sub t by blast
  qed
  then have "those (map (\<lambda>t. flatten n (root t) getchildren) ts) = Some (map preorder ts)"
    by (simp only: those_map_Some)
  then show ?case
    by (simp add: fuel kids comp_def)
qed

text \<open>
  C8. Whenever the nodes reachable from \<open>node\<close> through \<open>getchildren\<close> form a finite
  tree \<open>t\<close>, \<^verbatim>\<open>flatten(node, getchildren)\<close> returns, for every depth bound that
  covers the height of the tree, the depth-first pre-order of \<open>t\<close>: the node
  first, then the flattening of each child in order. On the tree
  \<^verbatim>\<open>1 -> [2,3], 2 -> [4], 3 -> [], 4 -> []\<close> it yields \<open>[1, 2, 4, 3]\<close>.
\<close>

theorem flatten_preorder:
  "(unfolds getchildren t \<and> height t \<le> fuel \<longrightarrow>
      flatten fuel (root t) getchildren = Some (preorder t)) \<and>
   flatten 3 1 example_children = Some [1, 2, 4, 3]"
proof
  show "unfolds getchildren t \<and> height t \<le> fuel \<longrightarrow>
      flatten fuel (root t) getchildren = Some (preorder t)"
    by (simp add: flatten_unfolds)
  show "flatten 3 1 example_children = Some [1, 2, 4, 3]"
    by (simp add: example_children_def numeral_3_eq_3)
qed

theorem flatten_preorder_witness:
  "unfolds example_children example_tree \<and> height example_tree \<le> 3 \<and>
   root example_tree = 1 \<and> preorder example_tree = [1, 2, 4, 3] \<and>
   flatten 3 (root example_tree) example_children = Some (preorder example_tree)"
proof -
  have hyp: "unfolds example_children example_tree \<and> height example_tree \<le> 3"
    by (simp add: example_children_def example_tree_def)
  have "flatten 3 (root example_tree) example_children = Some (preorder example_tree)"
    using flatten_preorder [THEN conjunct1, THEN mp, OF hyp] .
  moreover have "root example_tree = 1 \<and> preorder example_tree = [1, 2, 4, 3]"
    by (simp add: example_tree_def)
  ultimately show ?thesis
    using hyp by simp
qed

subsection \<open>prettify_path\<close>

text \<open>
  C7. On a POSIX host \<^verbatim>\<open>os.altsep\<close> is \<^verbatim>\<open>None\<close>, and
  \<^verbatim>\<open>prettify_path("/home/user/proj/src/mod.py", leading="/home/user/proj")\<close> raises
  \<^verbatim>\<open>TypeError\<close> where the claim has it return \<^verbatim>\<open>"src/mod"\<close>.
\<close>

theorem prettify_path_posix_raises:
  "prettify_path posix ''/home/user/proj/src/mod.py'' (Some ''/home/user/proj'')
     = Inl TypeError"
  by (simp add: prettify_path_def posix_def)

text \<open>Where \<^verbatim>\<open>os.altsep\<close> is a string the function returns, with the separator of
  the platform between \<^verbatim>\<open>src\<close> and \<^verbatim>\<open>mod\<close>: a backslash on Windows, \<^verbatim>\<open>/\<close> on OS/2.\<close>

lemma prettify_path_nt:
  "prettify_path nt ''/home/user/proj/src/mod.py'' (Some ''/home/user/proj'')
     = Inr (''src'' @ [CHR 0x5C] @ ''mod'')"
  by code_simp

lemma prettify_path_os2emx:
  "prettify_path os2emx ''/home/user/proj/src/mod.py'' (Some ''/home/user/proj'')
     = Inr ''src/mod''"
  by code_simp

subsection \<open>write_report\<close>

lemma leave_with_closed: "closed (snd (leave_with close_error exc f))"
  by (simp add: leave_with_def)

lemma write_report_opened:
  "open_error filename = None \<Longrightarrow>
   report_body data formatter_factory (opened filename, u) = (exc, (f, u')) \<Longrightarrow>
   write_report open_error close_error filename data formatter_factory u =
     (fst (leave_with close_error exc f), Some (snd (leave_with close_error exc f)), u')"
  by (simp add: write_report_def split: prod.split)

text \<open>
  C2, as the claim states it, fails where closing the file object raises:
  \<^verbatim>\<open>format_data\<close> raises \<^verbatim>\<open>boom\<close>, the file object is closed, and the exception that
  reaches the caller is the one of \<^verbatim>\<open>close\<close>, not \<^verbatim>\<open>boom\<close>.
\<close>

theorem write_report_close_raises_counterexample:
  "fst (report_body ''data'' failing_factory (opened ''/dev/full'', ())) = Some ''boom'' \<and>
   write_report always_opens disk_full ''/dev/full'' ''data'' failing_factory () =
     (Some ''IOError'',
      Some \<lparr>fname = ''/dev/full'', closed = True, written = ''headdata''\<rparr>, ())"
  by (simp add: write_report_def report_body_def leave_with_def opened_def
      failing_factory_def failing_formatter_def plain_formatter_def always_opens_def
      disk_full_def)

text \<open>What a run that opened the file returns, call by call.\<close>

lemma write_report_run:
  assumes opens: "open_error filename = None"
  shows
    "(\<exists>exc f u'. write_report open_error close_error filename data formatter_factory u
        = (exc, Some f, u') \<and> closed f) \<and>
     (formatter_factory (opened filename, u) = (Inl e, (f1, u1)) \<longrightarrow>
        write_report open_error close_error filename data formatter_factory u =
          (case close_error f1 of Some ce \<Rightarrow> Some ce | None \<Rightarrow> Some e,
           Some (f1\<lparr>closed := True\<rparr>), u1)) \<and>
     (formatter_factory (opened filename, u) = (Inr fmt, w1) \<and>
      format_report_header fmt w1 = (Inl e, (f2, u2)) \<longrightarrow>
        write_report open_error close_error filename data formatter_factory u =
          (case close_error f2 of Some ce \<Rightarrow> Some ce | None \<Rightarrow> Some e,
           Some (f2\<lparr>closed := True\<rparr>), u2)) \<and>
     (formatter_factory (opened filename, u) = (Inr fmt, w1) \<and>
      format_report_header fmt w1 = (Inr (), w2) \<and>
      format_data fmt data w2 = (Inl e, (f3, u3)) \<longrightarrow>
        write_report open_error close_error filename data formatter_factory u =
          (case close_error f3 of Some ce \<Rightarrow> Some ce | None \<Rightarrow> Some e,
           Some (f3\<lparr>closed := True\<rparr>), u3)) \<and>
     (formatter_factory (opened filename, u) = (Inr fmt, w1) \<and>
      format_report_header fmt w1 = (Inr (), w2) \<and>
      format_data fmt data w2 = (Inr (), w3) \<and>
      format_report_footer fmt w3 = (Inl e, (f4, u4)) \<longrightarrow>
        write_report open_error close_error filename data formatter_factory u =
          (case close_error f4 of Some ce \<Rightarrow> Some ce | None \<Rightarrow> Some e,
           Some (f4\<lparr>closed := True\<rparr>), u4)) \<and>
     (formatter_factory (opened filename, u) = (Inr fmt, w1) \<and>
      format_report_header fmt w1 = (Inr (), w2) \<and>
      format_data fmt data w2 = (Inr (), w3) \<and>
      format_report_footer fmt w3 = (Inr (), (f4, u4)) \<longrightarrow>
        write_report open_error close_error filename data formatter_factory u =
          (case close_error f4 of Some ce \<Rightarrow> Some ce | None \<Rightarrow> None,
           Some (f4\<lparr>closed := True\<rparr>), u4))"
proof (intro conjI impI)
  obtain exc f u' where body:
    "report_body data formatter_factory (opened filename, u) = (exc, (f, u'))"
    by (metis prod.exhaust)
  show "\<exists>exc f u'. write_report open_error close_error filename data formatter_factory u
        = (exc, Some f, u') \<and> closed f"
    using write_report_opened [where open_error = open_error and filename = filename,
        OF opens body, of close_error]
      leave_with_closed [of close_error exc f]
    by simp
next
  assume "formatter_factory (opened filename, u) = (Inl e, (f1, u1))"
  then have "report_body data formatter_factory (opened filename, u) = (Some e, (f1, u1))"
    by (simp add: report_body_def)
  from write_report_opened [where open_error = open_error and filename = filename,
      OF opens this]
  show "write_report open_error close_error filename data formatter_factory u =
          (case close_error f1 of Some ce \<Rightarrow> Some ce | None \<Rightarrow> Some e,
           Some (f1\<lparr>closed := True\<rparr>), u1)"
    by (simp add: leave_with_def)
next
  assume "formatter_factory (opened filename, u) = (Inr fmt, w1) \<and>
      format_report_header fmt w1 = (Inl e, (f2, u2))"
  then have "report_body data formatter_factory (opened filename, u) = (Some e, (f2, u2))"
    by (simp add: report_body_def)
  from write_report_opened [where open_error = open_error and filename = filename,
      OF opens this]
  show "write_report open_error close_error filename data formatter_factory u =
          (case close_error f2 of Some ce \<Rightarrow> Some ce | None \<Rightarrow> Some e,
           Some (f2\<lparr>closed := True\<rparr>), u2)"
    by (simp add: leave_with_def)
next
  assume "formatter_factory (opened filename, u) = (Inr fmt, w1) \<and>
      format_report_header fmt w1 = (Inr (), w2) \<and>
      format_data fmt data w2 = (Inl e, (f3, u3))"
  then have "report_body data formatter_factory (opened filename, u) = (Some e, (f3, u3))"
    by (simp add: report_body_def)
  from write_report_opened [where open_error = open_error and filename = filename,
      OF opens this]
  show "write_report open_error close_error filename data formatter_factory u =
          (case close_error f3 of Some ce \<Rightarrow> Some ce | None \<Rightarrow> Some e,
           Some (f3\<lparr>closed := True\<rparr>), u3)"
    by (simp add: leave_with_def)
next
  assume "formatter_factory (opened filename, u) = (Inr fmt, w1) \<and>
      format_report_header fmt w1 = (Inr (), w2) \<and>
      format_data fmt data w2 = (Inr (), w3) \<and>
      format_report_footer fmt w3 = (Inl e, (f4, u4))"
  then have "report_body data formatter_factory (opened filename, u) = (Some e, (f4, u4))"
    by (simp add: report_body_def)
  from write_report_opened [where open_error = open_error and filename = filename,
      OF opens this]
  show "write_report open_error close_error filename data formatter_factory u =
          (case close_error f4 of Some ce \<Rightarrow> Some ce | None \<Rightarrow> Some e,
           Some (f4\<lparr>closed := True\<rparr>), u4)"
    by (simp add: leave_with_def)
next
  assume "formatter_factory (opened filename, u) = (Inr fmt, w1) \<and>
      format_report_header fmt w1 = (Inr (), w2) \<and>
      format_data fmt data w2 = (Inr (), w3) \<and>
      format_report_footer fmt w3 = (Inr (), (f4, u4))"
  then have "report_body data formatter_factory (opened filename, u) = (None, (f4, u4))"
    by (simp add: report_body_def)
  from write_report_opened [where open_error = open_error and filename = filename,
      OF opens this]
  show "write_report open_error close_error filename data formatter_factory u =
          (case close_error f4 of Some ce \<Rightarrow> Some ce | None \<Rightarrow> None,
           Some (f4\<lparr>closed := True\<rparr>), u4)"
    by (simp add: leave_with_def)
qed

text \<open>The call that fails to open.\<close>

lemma write_report_open_raises:
  "open_error filename = Some e \<Longrightarrow>
   write_report open_error close_error filename data formatter_factory u = (Some e, None, u)"
  by (simp add: write_report_def)

text \<open>
  C2, amended. If \<^verbatim>\<open>open\<close> raises, that exception reaches the caller and nothing
  was called. Otherwise a file object is opened, the factory is called on it,
  then \<^verbatim>\<open>format_report_header\<close>, \<^verbatim>\<open>format_data\<close> with the data and
  \<^verbatim>\<open>format_report_footer\<close> of the formatter it returned, in that order, each on
  the state the call before left. The first of the four calls that raises ends
  the sequence: no later call is made. However \<^verbatim>\<open>write_report\<close> is left, the file
  object is closed, in the state the last call made left it. The exception that
  reaches the caller is the one the last call raised, unchanged, or none when
  all four returned, unless closing the file object itself raises: then it is
  the exception of \<^verbatim>\<open>close\<close>.
\<close>

theorem write_report_closes:
  "(open_error filename = Some oe \<longrightarrow>
      write_report open_error close_error filename data formatter_factory u
        = (Some oe, None, u)) \<and>
   (open_error filename = None \<longrightarrow>
    (\<exists>exc f u'. write_report open_error close_error filename data formatter_factory u
        = (exc, Some f, u') \<and> closed f) \<and>
     (formatter_factory (opened filename, u) = (Inl e, (f1, u1)) \<longrightarrow>
        write_report open_error close_error filename data formatter_factory u =
          (case close_error f1 of Some ce \<Rightarrow> Some ce | None \<Rightarrow> Some e,
           Some (f1\<lparr>closed := True\<rparr>), u1)) \<and>
     (formatter_factory (opened filename, u) = (Inr fmt, w1) \<and>
      format_report_header fmt w1 = (Inl e, (f2, u2)) \<longrightarrow>
        write_report open_error close_error filename data formatter_factory u =
          (case close_error f2 of Some ce \<Rightarrow> Some ce | None \<Rightarrow> Some e,
           Some (f2\<lparr>closed := True\<rparr>), u2)) \<and>
     (formatter_factory (opened filename, u) = (Inr fmt, w1) \<and>
      format_report_header fmt w1 = (Inr (), w2) \<and>
      format_data fmt data w2 = (Inl e, (f3, u3)) \<longrightarrow>
        write_report open_error close_error filename data formatter_factory u =
          (case close_error f3 of Some ce \<Rightarrow> Some ce | None \<Rightarrow> Some e,
           Some (f3\<lparr>closed := True\<rparr>), u3)) \<and>
     (formatter_factory (opened filename, u) = (Inr fmt, w1) \<and>
      format_report_header fmt w1 = (Inr (), w2) \<and>
      format_data fmt data w2 = (Inr (), w3) \<and>
      format_report_footer fmt w3 = (Inl e, (f4, u4)) \<longrightarrow>
        write_report open_error close_error filename data formatter_factory u =
          (case close_error f4 of Some ce \<Rightarrow> Some ce | None \<Rightarrow> Some e,
           Some (f4\<lparr>closed := True\<rparr>), u4)) \<and>
     (formatter_factory (opened filename, u) = (Inr fmt, w1) \<and>
      format_report_header fmt w1 = (Inr (), w2) \<and>
      format_data fmt data w2 = (Inr (), w3) \<and>
      format_report_footer fmt w3 = (Inr (), (f4, u4)) \<longrightarrow>
        write_report open_error close_error filename data formatter_factory u =
          (case close_error f4 of Some ce \<Rightarrow> Some ce | None \<Rightarrow> None,
           Some (f4\<lparr>closed := True\<rparr>), u4)))"
proof (rule conjI; rule impI)
  assume "open_error filename = Some oe"
  then show "write_report open_error close_error filename data formatter_factory u
        = (Some oe, None, u)"
    by (rule write_report_open_raises)
next
  assume "open_error filename = None"
  then show "(\<exists>exc f u'. write_report open_error close_error filename data formatter_factory u
        = (exc, Some f, u') \<and> closed f) \<and>
     (formatter_factory (opened filename, u) = (Inl e, (f1, u1)) \<longrightarrow>
        write_report open_error close_error filename data formatter_factory u =
          (case close_error f1 of Some ce \<Rightarrow> Some ce | None \<Rightarrow> Some e,
           Some (f1\<lparr>closed := True\<rparr>), u1)) \<and>
     (formatter_factory (opened filename, u) = (Inr fmt, w1) \<and>
      format_report_header fmt w1 = (Inl e, (f2, u2)) \<longrightarrow>
        write_report open_error close_error filename data formatter_factory u =
          (case close_error f2 of Some ce \<Rightarrow> Some ce | None \<Rightarrow> Some e,
           Some (f2\<lparr>closed := True\<rparr>), u2)) \<and>
     (formatter_factory (opened filename, u) = (Inr fmt, w1) \<and>
      format_report_header fmt w1 = (Inr (), w2) \<and>
      format_data fmt data w2 = (Inl e, (f3, u3)) \<longrightarrow>
        write_report open_error close_error filename data formatter_factory u =
          (case close_error f3 of Some ce \<Rightarrow> Some ce | None \<Rightarrow> Some e,
           Some (f3\<lparr>closed := True\<rparr>), u3)) \<and>
     (formatter_factory (opened filename, u) = (Inr fmt, w1) \<and>
      format_report_header fmt w1 = (Inr (), w2) \<and>
      format_data fmt data w2 = (Inr (), w3) \<and>
      format_report_footer fmt w3 = (Inl e, (f4, u4)) \<longrightarrow>
        write_report open_error close_error filename data formatter_factory u =
          (case close_error f4 of Some ce \<Rightarrow> Some ce | None \<Rightarrow> Some e,
           Some (f4\<lparr>closed := True\<rparr>), u4)) \<and>
     (formatter_factory (opened filename, u) = (Inr fmt, w1) \<and>
      format_report_header fmt w1 = (Inr (), w2) \<and>
      format_data fmt data w2 = (Inr (), w3) \<and>
      format_report_footer fmt w3 = (Inr (), (f4, u4)) \<longrightarrow>
        write_report open_error close_error filename data formatter_factory u =
          (case close_error f4 of Some ce \<Rightarrow> Some ce | None \<Rightarrow> None,
           Some (f4\<lparr>closed := True\<rparr>), u4))"
    by (rule write_report_run)
qed

theorem write_report_closes_witness:
  "always_opens ''out.txt'' = None \<and>
   write_report always_opens always_closes ''out.txt'' ''data'' failing_factory () =
     (Some ''boom'',
      Some \<lparr>fname = ''out.txt'', closed = True, written = ''headdata''\<rparr>, ()) \<and>
   write_report always_opens always_closes ''out.txt'' ''data'' plain_factory () =
     (None,
      Some \<lparr>fname = ''out.txt'', closed = True, written = ''headdatafoot''\<rparr>, ())"
proof -
  have opens: "always_opens ''out.txt'' = None"
    by (simp add: always_opens_def)
  have fails: "failing_factory (opened ''out.txt'', ()) = (Inr failing_formatter, (opened ''out.txt'', ())) \<and>
      format_report_header failing_formatter (opened ''out.txt'', ())
        = (Inr (), (\<lparr>fname = ''out.txt'', closed = False, written = ''head''\<rparr>, ())) \<and>
      format_data failing_formatter ''data''
          (\<lparr>fname = ''out.txt'', closed = False, written = ''head''\<rparr>, ())
        = (Inl ''boom'', (\<lparr>fname = ''out.txt'', closed = False, written = ''headdata''\<rparr>, ()))"
    by (simp add: failing_factory_def failing_formatter_def plain_formatter_def opened_def)
  have runs: "plain_factory (opened ''out.txt'', ()) = (Inr plain_formatter, (opened ''out.txt'', ())) \<and>
      format_report_header plain_formatter (opened ''out.txt'', ())
        = (Inr (), (\<lparr>fname = ''out.txt'', closed = False, written = ''head''\<rparr>, ())) \<and>
      format_data plain_formatter ''data''
          (\<lparr>fname = ''out.txt'', closed = False, written = ''head''\<rparr>, ())
        = (Inr (), (\<lparr>fname = ''out.txt'', closed = False, written = ''headdata''\<rparr>, ())) \<and>
      format_report_footer plain_formatter
          (\<lparr>fname = ''out.txt'', closed = False, written = ''headdata''\<rparr>, ())
        = (Inr (), (\<lparr>fname = ''out.txt'', closed = False, written = ''headdatafoot''\<rparr>, ()))"
    by (simp add: plain_factory_def plain_formatter_def opened_def)
  have "write_report always_opens always_closes ''out.txt'' ''data'' failing_factory () =
     (Some ''boom'',
      Some \<lparr>fname = ''out.txt'', closed = True, written = ''headdata''\<rparr>, ())"
    using write_report_closes [where open_error = always_opens
        and filename = "''out.txt''" and close_error = always_closes and data = "''data''"
        and u = "()" and formatter_factory = failing_factory,
        THEN conjunct2, THEN mp, OF opens,
        THEN conjunct2, THEN conjunct2, THEN conjunct2, THEN conjunct1, THEN mp, OF fails]
    by (simp add: always_closes_def)
  moreover
  have "write_report always_opens always_closes ''out.txt'' ''data'' plain_factory () =
     (None,
      Some \<lparr>fname = ''out.txt'', closed = True, written = ''headdatafoot''\<rparr>, ())"
    using write_report_closes [where open_error = always_opens
        and filename = "''out.txt''" and close_error = always_closes and data = "''data''"
        and u = "()" and formatter_factory = plain_factory,
        THEN conjunct2, THEN mp, OF opens,
        THEN conjunct2, THEN conjunct2, THEN conjunct2, THEN conjunct2, THEN conjunct2,
        THEN mp, OF runs]
    by (simp add: always_closes_def)
  ultimately show ?thesis
    using opens by simp
qed

subsection \<open>find_all\<close>

text \<open>A larger depth bound does not change a result.\<close>

lemma for_each_mono:
  assumes "\<And>x s r. body x s = Some r \<Longrightarrow> body' x s = Some r"
  shows "for_each body xs s = Some r \<Longrightarrow> for_each body' xs s = Some r"
proof (induction xs arbitrary: s)
  case Nil
  then show ?case by simp
next
  case (Cons x xs)
  show ?case
  proof (cases "body x s")
    case None
    with Cons.prems show ?thesis by simp
  next
    case (Some o1)
    then have b': "body' x s = Some o1" by (rule assms)
    show ?thesis
    proof (cases o1)
      case (Inl e)
      with Cons.prems Some b' show ?thesis by auto
    next
      case (Inr s')
      with Cons.prems Some have "for_each body xs s' = Some r" by simp
      then have "for_each body' xs s' = Some r" by (rule Cons.IH)
      with Inr b' show ?thesis by simp
    qed
  qed
qed

lemma findall_mono:
  "findall os n self ps = Some r \<Longrightarrow> n \<le> m \<Longrightarrow> findall os m self ps = Some r"
proof (induction n arbitrary: m self ps r)
  case 0
  then show ?case by simp
next
  case (Suc n)
  then obtain m' where m: "m = Suc m'" and le: "n \<le> m'"
    by (cases m) auto
  show ?case
  proof (cases "findfiles os self (filter (isfile os) ps)")
    case (Inl e)
    with Suc.prems(1) show ?thesis by (auto simp: m)
  next
    case (Inr self')
    let ?body = "\<lambda>k d st. case listdir os d of
                       Inl err \<Rightarrow> Some (Inl err)
                     | Inr names \<Rightarrow> findall os k st (map (join os d) names)"
    have step: "?body n d st = Some r' \<Longrightarrow> ?body m' d st = Some r'" for d st r'
      using Suc.IH [OF _ le] by (cases "listdir os d") auto
    have "for_each (?body n) (filter (isdir os) ps) self' = Some r"
      using Suc.prems(1) Inr by simp
    then have "for_each (?body m') (filter (isdir os) ps) self' = Some r"
      by (rule for_each_mono [rotated]) (rule step)
    then show ?thesis
      by (simp add: m Inr)
  qed
qed

lemma find_all_mono:
  "find_all os n roots pat = Some r \<Longrightarrow> n \<le> m \<Longrightarrow> find_all os m roots pat = Some r"
  unfolding find_all_def
  by (auto split: option.splits sum.splits dest: findall_mono)

lemma perm3:
  assumes "distinct names" "set names = {a, b, c}" "a \<noteq> b" "a \<noteq> c" "b \<noteq> c"
  shows "names \<in> set [[a, b, c], [a, c, b], [b, a, c], [b, c, a], [c, a, b], [c, b, a]]"
proof -
  have "length names = 3"
    using assms distinct_card [of names] by simp
  then obtain x y z where n: "names = [x, y, z]"
    by (auto simp: numeral_3_eq_3 length_Suc_conv)
  have "x \<in> {a, b, c}" "y \<in> {a, b, c}" "z \<in> {a, b, c}" 
    using assms(2) unfolding n by auto
  moreover have "x \<noteq> y" "x \<noteq> z" "y \<noteq> z" using assms(1) unfolding n by auto
  ultimately show ?thesis
    unfolding n using assms(2) by auto
qed

lemma all_orders:
  "list_all (\<lambda>names. find_all (tree_host names) 3 [''/root''] ''*.py''
       = Some (Inr [''/root/a.py'', ''/root/sub/c.py'']))
     [[''a.py'', ''b.txt'', ''sub''], [''a.py'', ''sub'', ''b.txt''],
      [''b.txt'', ''a.py'', ''sub''], [''b.txt'', ''sub'', ''a.py''],
      [''sub'', ''a.py'', ''b.txt''], [''sub'', ''b.txt'', ''a.py'']]"
  by code_simp

text \<open>
  C3. On the tree \<^verbatim>\<open>/root/{a.py, b.txt, sub/{c.py}}\<close>, in whatever order the host
  lists the three entries of \<^verbatim>\<open>/root\<close>, and for every depth bound that covers the
  tree, \<^verbatim>\<open>find_all(["/root"], "*.py")\<close> returns exactly \<^verbatim>\<open>/root/a.py\<close> and then
  \<^verbatim>\<open>/root/sub/c.py\<close>: the files of a level come before those of its
  subdirectories, also when \<^verbatim>\<open>sub\<close> is listed before \<^verbatim>\<open>a.py\<close>.
\<close>

theorem find_all_example_tree:
  "distinct names \<and> set names = {''a.py'', ''b.txt'', ''sub''} \<and> 3 \<le> fuel \<longrightarrow>
     find_all (tree_host names) fuel [''/root''] ''*.py''
       = Some (Inr [''/root/a.py'', ''/root/sub/c.py''])"
proof
  assume h: "distinct names \<and> set names = {''a.py'', ''b.txt'', ''sub''} \<and> 3 \<le> fuel"
  from h have d: "distinct names"
    by (rule conjunct1)
  from h have s: "set names = {''a.py'', ''b.txt'', ''sub''}"
    by (rule conjunct2 [THEN conjunct1])
  from h have f: "3 \<le> fuel"
    by (rule conjunct2 [THEN conjunct2])
  have "names \<in> set [[''a.py'', ''b.txt'', ''sub''], [''a.py'', ''sub'', ''b.txt''],
      [''b.txt'', ''a.py'', ''sub''], [''b.txt'', ''sub'', ''a.py''],
      [''sub'', ''a.py'', ''b.txt''], [''sub'', ''b.txt'', ''a.py'']]"
    using d s by (rule perm3) simp_all
  then have "find_all (tree_host names) 3 [''/root''] ''*.py''
       = Some (Inr [''/root/a.py'', ''/root/sub/c.py''])"
    using all_orders unfolding list_all_iff by blast
  then show "find_all (tree_host names) fuel [''/root''] ''*.py''
       = Some (Inr [''/root/a.py'', ''/root/sub/c.py''])"
    using f by (rule find_all_mono)
qed

theorem find_all_example_tree_witness:
  "distinct [''sub'', ''b.txt'', ''a.py''] \<and>
   set [''sub'', ''b.txt'', ''a.py''] = {''a.py'', ''b.txt'', ''sub''} \<and>
   find_all (tree_host [''sub'', ''b.txt'', ''a.py'']) 4 [''/root''] ''*.py''
     = Some (Inr [''/root/a.py'', ''/root/sub/c.py''])"
proof -
  have h: "distinct [''sub'', ''b.txt'', ''a.py''] \<and>
      set [''sub'', ''b.txt'', ''a.py''] = {''a.py'', ''b.txt'', ''sub''} \<and> 3 \<le> (4 :: nat)"
    by auto
  show ?thesis
    using find_all_example_tree [THEN mp, OF h] h by blast
qed

text \<open>
  C1. A file given twice among the roots is returned twice: both copies are in
  the one batch \<^verbatim>\<open>findfiles\<close> receives, both pass \<^verbatim>\<open>not_yet_processed\<close> against
  the set as it was before the batch, and both are appended.
\<close>

theorem find_all_duplicate_root:
  "find_all example_host 1 [''/root/a.py'', ''/root/a.py''] ''*.py''
     = Some (Inr [''/root/a.py'', ''/root/a.py''])"
  by code_simp

text \<open>
  Duplicates across batches are removed: a directory given twice, or a directory
  and one of its subdirectories, yield each file once. In general the result has
  no duplicates when the roots are distinct as absolute paths and no directory
  listing repeats a path.
\<close>

lemma find_all_directory_twice:
  "find_all example_host 3 [''/root'', ''/root''] ''*.py''
     = Some (Inr [''/root/a.py'', ''/root/sub/c.py''])"
  "find_all example_host 3 [''/root'', ''/root/sub''] ''*.py''
     = Some (Inr [''/root/a.py'', ''/root/sub/c.py''])"
  by code_simp+

lemma reach_unfold:
  "reach os S = S \<union> (\<Union>d \<in> {d \<in> S. isdir os d}. reach os (children os d))"
proof (intro set_eqI iffI)
  fix p assume "p \<in> reach os S"
  then show "p \<in> S \<union> (\<Union>d \<in> {d \<in> S. isdir os d}. reach os (children os d))"
  proof (induction rule: reach.induct)
    case (start p)
    then show ?case by simp
  next
    case (child d names n)
    from child.IH show ?case
    proof
      assume "d \<in> S"
      moreover have "join os d n \<in> reach os (children os d)"
        using child.hyps by (intro reach.start) (simp add: children_def)
      ultimately show ?thesis using child.hyps by blast
    next
      assume "d \<in> (\<Union>d \<in> {d \<in> S. isdir os d}. reach os (children os d))"
      then obtain d0 where "d0 \<in> S" "isdir os d0" "d \<in> reach os (children os d0)"
        by blast
      moreover from this child.hyps have "join os d n \<in> reach os (children os d0)"
        by (intro reach.child)
      ultimately show ?thesis by blast
    qed
  qed
next
  fix p assume "p \<in> S \<union> (\<Union>d \<in> {d \<in> S. isdir os d}. reach os (children os d))"
  then show "p \<in> reach os S"
  proof
    assume "p \<in> S"
    then show ?thesis by (rule reach.start)
  next
    assume "p \<in> (\<Union>d \<in> {d \<in> S. isdir os d}. reach os (children os d))"
    then obtain d0 where d0: "d0 \<in> S" "isdir os d0" and p: "p \<in> reach os (children os d0)"
      by blast
    from p show ?thesis
    proof (induction rule: reach.induct)
      case (start p)
      then obtain names n where "listdir os d0 = Inr names" "n \<in> set names" "p = join os d0 n"
        by (auto simp: children_def split: sum.splits)
      then show ?case
        using d0 by (auto intro: reach.child reach.start)
    next
      case (child d names n)
      then show ?case by (auto intro: reach.child)
    qed
  qed
qed

lemma findfiles_set:
  assumes "findfiles os self fs = Inr self'" and "consistent self"
  shows "consistent self' \<and> pattern self' = pattern self \<and>
         set (processed_files self') =
           set (processed_files self) \<union> {p \<in> set fs. fnmatches (normcase os) p (pattern self)}"
proof (cases "fs = []")
  case True
  with assms show ?thesis by (simp add: findfiles_def)
next
  case False
  with assms(1) obtain gs where gs: "translate (normcase os (pattern self)) = Inr gs"
    by (auto simp: findfiles_def fnmatch_filter_def split: sum.splits)
  with assms False show ?thesis
    by (auto simp: findfiles_def fnmatch_filter_def fnmatches_def consistent_def
        not_yet_processed_def Let_def)
qed

lemma for_each_acc:
  assumes "for_each body xs s = Some (Inr s')" and "P s"
    and "\<And>x s s'. x \<in> set xs \<Longrightarrow> P s \<Longrightarrow> body x s = Some (Inr s') \<Longrightarrow>
           P s' \<and> acc s' = acc s \<union> F x"
  shows "P s' \<and> acc s' = acc s \<union> (\<Union>x \<in> set xs. F x)"
  using assms
proof (induction xs arbitrary: s)
  case Nil
  then show ?case by simp
next
  case (Cons x xs)
  from Cons.prems(1) obtain s1 where b: "body x s = Some (Inr s1)"
    and rest: "for_each body xs s1 = Some (Inr s')"
    by (auto split: option.splits sum.splits)
  have s1: "P s1 \<and> acc s1 = acc s \<union> F x"
    using Cons.prems(3) [of x s s1] Cons.prems(2) b by simp
  have "P s' \<and> acc s' = acc s1 \<union> (\<Union>x \<in> set xs. F x)"
    using rest s1 Cons.prems(3) by (intro Cons.IH) auto
  then show ?case using s1 by auto
qed

lemma findall_set:
  "findall os n self ps = Some (Inr self') \<Longrightarrow> consistent self \<Longrightarrow>
     consistent self' \<and> pattern self' = pattern self \<and>
     set (processed_files self') =
       set (processed_files self) \<union>
       {p \<in> reach os (set ps). isfile os p \<and> fnmatches (normcase os) p (pattern self)}"
proof (induction n arbitrary: self ps self')
  case 0
  then show ?case by simp
next
  case (Suc n)
  let ?body = "\<lambda>d st. case listdir os d of
                       Inl err \<Rightarrow> Some (Inl err)
                     | Inr names \<Rightarrow> findall os n st (map (join os d) names)"
  let ?M = "\<lambda>S. {p \<in> S. isfile os p \<and> fnmatches (normcase os) p (pattern self)}"
  from Suc.prems(1) obtain s1 where
    ff: "findfiles os self (filter (isfile os) ps) = Inr s1"
    and loop: "for_each ?body (filter (isdir os) ps) s1 = Some (Inr self')"
    by (auto split: sum.splits)
  have s1: "consistent s1 \<and> pattern s1 = pattern self \<and>
      set (processed_files s1) = set (processed_files self) \<union> ?M (set ps)"
    using findfiles_set [OF ff Suc.prems(2)] by auto
  have step: "(consistent st' \<and> pattern st' = pattern self) \<and>
      set (processed_files st') = set (processed_files st) \<union> ?M (reach os (children os d))"
    if "d \<in> set (filter (isdir os) ps)" "consistent st \<and> pattern st = pattern self"
      "?body d st = Some (Inr st')" for d st st'
  proof -
    from that(3) obtain names where names: "listdir os d = Inr names"
      and rec: "findall os n st (map (join os d) names) = Some (Inr st')"
      by (auto split: sum.splits)
    have "children os d = set (map (join os d) names)"
      by (simp add: children_def names)
    then show ?thesis
      using Suc.IH [OF rec] that(2) by auto
  qed
  have "(consistent self' \<and> pattern self' = pattern self) \<and>
      set (processed_files self') = set (processed_files s1) \<union>
        (\<Union>d \<in> set (filter (isdir os) ps). ?M (reach os (children os d)))"
    using loop _ step
    by (rule for_each_acc [where P = "\<lambda>st. consistent st \<and> pattern st = pattern self"
          and acc = "\<lambda>st. set (processed_files st)"]) (simp add: s1)
  moreover have "?M (reach os (set ps)) =
      ?M (set ps) \<union> (\<Union>d \<in> set (filter (isdir os) ps). ?M (reach os (children os d)))"
    by (subst reach_unfold) auto
  ultimately show ?case
    using s1 by auto
qed

lemma findfiles_distinct:
  assumes "findfiles os self fs = Inr self'" and "consistent self"
    and "distinct (processed_files self)" and "distinct fs"
  shows "consistent self' \<and> distinct (processed_files self')"
proof (cases "fs = []")
  case True
  with assms show ?thesis by (simp add: findfiles_def)
next
  case False
  with assms show ?thesis
    by (auto simp: findfiles_def fnmatch_filter_def consistent_def not_yet_processed_def
        Let_def split: sum.splits)
qed

lemma for_each_inv:
  assumes "for_each body xs s = Some (Inr s')" and "P s"
    and "\<And>x s s'. x \<in> set xs \<Longrightarrow> P s \<Longrightarrow> body x s = Some (Inr s') \<Longrightarrow> P s'"
  shows "P s'"
  using for_each_acc [of body xs s s' P "\<lambda>s. {}" "\<lambda>x. {}"] assms by simp

lemma findall_distinct:
  "findall os n self ps = Some (Inr self') \<Longrightarrow> distinct_listings os \<Longrightarrow> distinct ps \<Longrightarrow>
     consistent self \<and> distinct (processed_files self) \<Longrightarrow>
     consistent self' \<and> distinct (processed_files self')"
proof (induction n arbitrary: self ps self')
  case 0
  then show ?case by simp
next
  case (Suc n)
  let ?body = "\<lambda>d st. case listdir os d of
                       Inl err \<Rightarrow> Some (Inl err)
                     | Inr names \<Rightarrow> findall os n st (map (join os d) names)"
  from Suc.prems(1) obtain s1 where
    ff: "findfiles os self (filter (isfile os) ps) = Inr s1"
    and loop: "for_each ?body (filter (isdir os) ps) s1 = Some (Inr self')"
    by (auto split: sum.splits)
  have s1: "consistent s1 \<and> distinct (processed_files s1)"
    using findfiles_distinct [OF ff] Suc.prems(3,4) by simp
  have step: "consistent st' \<and> distinct (processed_files st')"
    if "consistent st \<and> distinct (processed_files st)" "?body d st = Some (Inr st')"
    for d st st'
  proof -
    from that(2) obtain names where names: "listdir os d = Inr names"
      and rec: "findall os n st (map (join os d) names) = Some (Inr st')"
      by (auto split: sum.splits)
    have "distinct (map (join os d) names)"
      using Suc.prems(2) names by (simp add: distinct_listings_def)
    then show ?thesis
      using Suc.IH [OF rec Suc.prems(2)] that(1) by simp
  qed
  show ?case
    using loop s1 step
    by (rule for_each_inv [where P = "\<lambda>st. consistent st \<and> distinct (processed_files st)"])
qed

lemma find_all_distinct:
  assumes "find_all os fuel files_and_folders pat = Some (Inr result)"
    and "distinct_listings os" and "distinct (map (abspath os) files_and_folders)"
  shows "distinct result"
proof -
  from assms(1) obtain fa where
    fa: "findall os fuel (init_FindAll pat) (map (abspath os) files_and_folders) = Some (Inr fa)"
    and result: "result = processed_files fa"
    by (auto simp: find_all_def split: option.splits sum.splits)
  have "consistent (init_FindAll pat) \<and> distinct (processed_files (init_FindAll pat))"
    by (simp add: consistent_def init_FindAll_def)
  from findall_distinct [OF fa assms(2,3) this] show ?thesis
    by (simp add: result)
qed

text \<open>
  C5, as the claim states it, fails in both directions. The base name of
  \<^verbatim>\<open>/root/a.py\<close> matches the pattern \<^verbatim>\<open>a.py\<close> and the file is not included; the base
  name of \<^verbatim>\<open>/root/sub/c.py\<close> does not match \<^verbatim>\<open>/root/s*\<close> and the file is included.
\<close>

theorem find_all_basename_counterexample:
  "isfile example_host ''/root/a.py'' \<and>
   fnmatches (normcase example_host) (posix_basename ''/root/a.py'') ''a.py'' \<and>
   find_all example_host 1 [''/root/a.py''] ''a.py'' = Some (Inr []) \<and>
   \<not> fnmatches (normcase example_host) (posix_basename ''/root/sub/c.py'') ''/root/s*'' \<and>
   find_all example_host 3 [''/root''] ''/root/s*'' = Some (Inr [''/root/sub/c.py''])"
  by code_simp

text \<open>
  C5, amended. The pattern is matched against the whole path string that
  \<^verbatim>\<open>findfiles\<close> is given: the absolute path of a root, or the path of a directory
  joined with the name of an entry. When \<^verbatim>\<open>find_all\<close> returns, a path is in the
  result exactly when it was met during the collection, is a file, and the
  whole path matches the pattern (\<^verbatim>\<open>*\<close> and \<^verbatim>\<open>?\<close> also match the separator).
\<close>

theorem find_all_matches_full_path:
  assumes "find_all os fuel files_and_folders pat = Some (Inr result)"
  shows "p \<in> set result \<longleftrightarrow>
           p \<in> encountered os files_and_folders \<and> isfile os p \<and>
           fnmatches (normcase os) p pat"
proof -
  from assms obtain fa where
    fa: "findall os fuel (init_FindAll pat) (map (abspath os) files_and_folders)
           = Some (Inr fa)"
    and result: "result = processed_files fa"
    by (auto simp: find_all_def split: option.splits sum.splits)
  have "consistent (init_FindAll pat)"
    by (simp add: consistent_def init_FindAll_def)
  from findall_set [OF fa this] show ?thesis
    by (auto simp: result encountered_def init_FindAll_def)
qed

lemma example_run:
  "find_all example_host 3 [''/root''] ''/root/s*'' = Some (Inr [''/root/sub/c.py''])"
  by code_simp

theorem find_all_matches_full_path_witness:
  "find_all example_host 3 [''/root''] ''/root/s*'' = Some (Inr [''/root/sub/c.py'']) \<and>
   ''/root/sub/c.py'' \<in> encountered example_host [''/root''] \<and>
   isfile example_host ''/root/sub/c.py'' \<and>
   fnmatches (normcase example_host) ''/root/sub/c.py'' ''/root/s*''"
  using find_all_matches_full_path [OF example_run, of "''/root/sub/c.py''"] example_run
  by simp

end
